theory Spec2Isabelle
  imports Main
begin

section \<open>Python values used by \<open>swc/cli.py\<close>\<close>

text \<open>
  A Python \<open>str\<close> is a sequence of Unicode code points, so a string is a list of code
  point numbers. Python strings hold code points from 0 to 0x10FFFF, lone surrogates
  (0xD800 to 0xDFFF) included; larger numbers do not occur in a Python string.
  \<open>py\<close> embeds a literal of the source.
\<close>

type_synonym codepoint = nat

type_synonym pystr = "codepoint list"

definition py :: "string \<Rightarrow> pystr" where
  "py s = map of_char s"

text \<open>The exceptions the modelled code can raise.\<close>

datatype error = UnicodeEncodeError | TypeError

section \<open>\<open>byte_or_char\<close>\<close>

text \<open>
  \<^verbatim>\<open>
  last_param = None
  for param in ordered_params:
      if param == "count":
          last_param = "count"
      if param == "chars":
          last_param = "chars"
  return last_param
  \<close>
  The loop is a recursion over the list with the variable \<open>last_param\<close> passed along;
  the two \<open>if\<close> statements of the body run one after the other.
\<close>

fun byte_or_char_loop :: "pystr option \<Rightarrow> pystr list \<Rightarrow> pystr option" where
  "byte_or_char_loop last_param [] = last_param"
| "byte_or_char_loop last_param (param # rest) =
     (let last_param1 = (if param = py ''count'' then Some (py ''count'') else last_param);
          last_param2 = (if param = py ''chars'' then Some (py ''chars'') else last_param1)
      in byte_or_char_loop last_param2 rest)"

definition byte_or_char :: "pystr list \<Rightarrow> pystr option" where
  "byte_or_char ordered_params = byte_or_char_loop None ordered_params"

text \<open>
  The resolver in the words of the specification: keep the tokens that are the bytes flag
  or the chars flag; the marker is the last of them, or none when there is none.
\<close>

definition last_seen_marker :: "pystr list \<Rightarrow> pystr option" where
  "last_seen_marker order =
     (case rev (filter (\<lambda>p. p = py ''count'' \<or> p = py ''chars'') order) of
        [] \<Rightarrow> None
      | p # _ \<Rightarrow> Some p)"


section \<open>Library operations the module calls\<close>

subsection \<open>\<open>str\<close> of an integer and f-string formatting\<close>

text \<open>
  \<open>str(n)\<close> of a Python integer is its decimal numeral, without leading zeros and with
  a minus sign for a negative number. \<open>str_nat\<close> is \<open>str\<close> on the results of \<open>len\<close>,
  which are never negative.
\<close>

definition digit_char :: "nat \<Rightarrow> codepoint" where
  "digit_char d = 48 + d"

fun str_nat :: "nat \<Rightarrow> pystr" where
  "str_nat n =
     (if n < 10 then [digit_char n] else str_nat (n div 10) @ [digit_char (n mod 10)])"

declare str_nat.simps [simp del]

definition str_int :: "int \<Rightarrow> pystr" where
  "str_int i = (if i < 0 then 45 # str_nat (nat (- i)) else str_nat (nat i))"

text \<open>
  The values handed to \<open>create_output\<close>: the annotation of the function and its docstring
  say integers, \<open>get_wc_values\<close> produces strings. Both are values of the model.
\<close>

datatype pyval = PyInt int | PyStr pystr

text \<open>A replacement field \<open>{v}\<close> of an f-string: \<open>str(v)\<close> for an integer, \<open>v\<close> for a string.\<close>

fun format_value :: "pyval \<Rightarrow> pystr" where
  "format_value (PyInt i) = str_int i"
| "format_value (PyStr s) = s"

subsection \<open>\<open>str.join\<close>\<close>

text \<open>
  \<open>sep.join(items)\<close> raises \<open>TypeError\<close> when an item is not a string, and otherwise
  concatenates the items with \<open>sep\<close> between neighbours.
\<close>

fun str_items :: "pyval list \<Rightarrow> error + pystr list" where
  "str_items [] = Inr []"
| "str_items (PyInt i # vs) = Inl TypeError"
| "str_items (PyStr s # vs) =
     (case str_items vs of Inl e \<Rightarrow> Inl e | Inr ss \<Rightarrow> Inr (s # ss))"

fun join_strs :: "pystr \<Rightarrow> pystr list \<Rightarrow> pystr" where
  "join_strs sep [] = []"
| "join_strs sep [s] = s"
| "join_strs sep (s # t # ss) = s @ sep @ join_strs sep (t # ss)"

definition str_join :: "pystr \<Rightarrow> pyval list \<Rightarrow> error + pystr" where
  "str_join sep items =
     (case str_items items of Inl e \<Rightarrow> Inl e | Inr ss \<Rightarrow> Inr (join_strs sep ss))"

definition tab :: pystr where
  "tab = [9]"

definition newline :: codepoint where
  "newline = 10"

subsection \<open>\<open>str.encode("utf-8")\<close>\<close>

text \<open>
  The strict UTF-8 codec: one byte below 0x80, two below 0x800, three below 0x10000 and
  four above; a surrogate code point cannot be encoded and raises \<open>UnicodeEncodeError\<close>.
\<close>

definition is_surrogate :: "codepoint \<Rightarrow> bool" where
  "is_surrogate c = (0xD800 \<le> c \<and> c \<le> 0xDFFF)"

definition utf8_encode_char :: "codepoint \<Rightarrow> error + nat list" where
  "utf8_encode_char c =
     (if c < 0x80 then Inr [c]
      else if c < 0x800 then Inr [0xC0 + c div 0x40, 0x80 + c mod 0x40]
      else if is_surrogate c then Inl UnicodeEncodeError
      else if c < 0x10000 then
        Inr [0xE0 + c div 0x1000, 0x80 + c div 0x40 mod 0x40, 0x80 + c mod 0x40]
      else
        Inr [0xF0 + c div 0x40000, 0x80 + c div 0x1000 mod 0x40,
             0x80 + c div 0x40 mod 0x40, 0x80 + c mod 0x40])"

fun encode_utf8 :: "pystr \<Rightarrow> error + nat list" where
  "encode_utf8 [] = Inr []"
| "encode_utf8 (c # cs) =
     (case utf8_encode_char c of
        Inl e \<Rightarrow> Inl e
      | Inr bs \<Rightarrow> (case encode_utf8 cs of Inl e \<Rightarrow> Inl e | Inr rest \<Rightarrow> Inr (bs @ rest)))"

subsection \<open>\<open>str.split()\<close>\<close>

text \<open>
  \<open>isspace\<close> is the whitespace test of Python strings. \<open>text.split()\<close> without a
  separator skips whitespace, takes characters up to the next whitespace as one item,
  and repeats until the string ends.
\<close>

definition isspace :: "codepoint \<Rightarrow> bool" where
  "isspace c =
     ((0x09 \<le> c \<and> c \<le> 0x0D) \<or> (0x1C \<le> c \<and> c \<le> 0x20) \<or> c = 0x85 \<or> c = 0xA0
      \<or> c = 0x1680 \<or> (0x2000 \<le> c \<and> c \<le> 0x200A) \<or> c = 0x2028 \<or> c = 0x2029
      \<or> c = 0x202F \<or> c = 0x205F \<or> c = 0x3000)"

function str_split :: "pystr \<Rightarrow> pystr list" where
  "str_split s =
     (case dropWhile isspace s of
        [] \<Rightarrow> []
      | c # cs \<Rightarrow>
          (c # takeWhile (\<lambda>x. \<not> isspace x) cs) # str_split (dropWhile (\<lambda>x. \<not> isspace x) cs))"
  by pat_completeness auto
termination
proof (relation "measure length")
  show "wf (measure length)" by simp
next
  fix s :: pystr and c cs
  assume "dropWhile isspace s = c # cs"
  then have "length cs < length s"
    using length_dropWhile_le [of isspace s] by simp
  moreover have "length (dropWhile (\<lambda>x. \<not> isspace x) cs) \<le> length cs"
    by (rule length_dropWhile_le)
  ultimately show "(dropWhile (\<lambda>x. \<not> isspace x) cs, s) \<in> measure length"
    by simp
qed

declare str_split.simps [simp del]

section \<open>\<open>get_wc_values\<close>\<close>

text \<open>
  \<^verbatim>\<open>
  byte_count = str(len(text.encode("utf-8")))
  line_count = str(len(["c" for c in text if c == "\n"]))
  word_count = str(len(text.split()))
  char_count = str(len(text))
  return byte_count, line_count, word_count, char_count
  \<close>
  The encoding comes first, so its exception leaves the function before anything else
  is computed.
\<close>

definition get_wc_values :: "pystr \<Rightarrow> error + (pystr \<times> pystr \<times> pystr \<times> pystr)" where
  "get_wc_values text =
     (case encode_utf8 text of
        Inl e \<Rightarrow> Inl e
      | Inr encoded \<Rightarrow>
          (let byte_count = str_nat (length encoded);
               line_count = str_nat (length (map (\<lambda>c. py ''c'') (filter (\<lambda>c. c = newline) text)));
               word_count = str_nat (length (str_split text));
               char_count = str_nat (length text)
           in Inr (byte_count, line_count, word_count, char_count)))"

section \<open>\<open>create_output\<close>\<close>

text \<open>
  \<^verbatim>\<open>
  count, lines, words, chars = params
  byte_count, line_count, word_count, char_count = values
  if not any([count, lines, words, chars]):
      return f"{line_count}\t{word_count}\t{byte_count}"
  output = []
  if lines:
      output.append(line_count)
  if words:
      output.append(word_count)
  if count and chars:
      output.append(byte_count if last_param == "count" else char_count)
  else:
      if count:
          output.append(byte_count)
      if chars:
          output.append(char_count)
  return "\t".join(output)
  \<close>
\<close>

definition create_output ::
  "bool \<times> bool \<times> bool \<times> bool \<Rightarrow> pyval \<times> pyval \<times> pyval \<times> pyval \<Rightarrow> pystr option
     \<Rightarrow> error + pystr" where
  "create_output params vals last_param =
     (case params of (count, lines, words, chars) \<Rightarrow>
      case vals of (byte_count, line_count, word_count, char_count) \<Rightarrow>
        if \<not> (count \<or> lines \<or> words \<or> chars) then
          Inr (format_value line_count @ tab @ format_value word_count @ tab
               @ format_value byte_count)
        else
          (let output0 = [];
               output1 = (if lines then output0 @ [line_count] else output0);
               output2 = (if words then output1 @ [word_count] else output1);
               output3 =
                 (if count \<and> chars then
                    output2 @ [if last_param = Some (py ''count'') then byte_count
                               else char_count]
                  else
                    (let output2a = (if count then output2 @ [byte_count] else output2)
                     in (if chars then output2a @ [char_count] else output2a)))
           in str_join tab output3))"

section \<open>\<open>parse_file\<close>\<close>

text \<open>
  The open file: what \<open>file.read()\<close> returns and \<open>file.name\<close>.
  \<^verbatim>\<open>
  text = file.read()
  last_param = byte_or_char(ordered_params)
  output = create_output(params, get_wc_values(text), last_param)
  output_w_filename = output + f" {file.name}"
  return output_w_filename
  \<close>
\<close>

record textio =
  file_read :: pystr
  file_name :: pystr

definition parse_file ::
  "textio \<Rightarrow> bool \<times> bool \<times> bool \<times> bool \<Rightarrow> pystr list \<Rightarrow> error + pystr" where
  "parse_file file params ordered_params =
     (let text = file_read file;
          last_param = byte_or_char ordered_params
      in case get_wc_values text of
           Inl e \<Rightarrow> Inl e
         | Inr (byte_count, line_count, word_count, char_count) \<Rightarrow>
             (case create_output params
                     (PyStr byte_count, PyStr line_count, PyStr word_count, PyStr char_count)
                     last_param of
                Inl e \<Rightarrow> Inl e
              | Inr output \<Rightarrow> Inr (output @ py '' '' @ file_name file)))"

section \<open>\<open>OrderedOptionsCommand\<close> and \<open>cli\<close>\<close>

text \<open>
  \<open>_options\<close> is a list held by the class: every \<open>parse_args\<close> appends to the same
  list, so its value is a state that passes from one invocation to the next within a
  process and is empty when the module is loaded.
  \<^verbatim>\<open>
  _, _, param_order = parser.parse_args(args=list(args))
  for param in param_order:
      self._options.append(param.name)
  \<close>
  The parser belongs to the click library; an invocation carries what it yields: the
  names of the parameters in the order of the command line, the four flags and the file.
\<close>

record invocation =
  param_order :: "pystr list"
  arg_file :: textio
  opt_count :: bool
  opt_lines :: bool
  opt_words :: bool
  opt_chars :: bool

definition parse_args :: "pystr list \<Rightarrow> pystr list \<Rightarrow> pystr list" where
  "parse_args options names = fold (\<lambda>name opts. opts @ [name]) names options"

text \<open>
  \<^verbatim>\<open>
  params = (count, lines, words, chars)
  output = parse_file(file, params, OrderedOptionsCommand._options)
  click.echo(output)
  \<close>
  \<open>cli\<close> returns the list \<open>_options\<close> after the invocation and the line printed (or the
  exception raised).
\<close>

definition cli :: "pystr list \<Rightarrow> invocation \<Rightarrow> pystr list \<times> (error + pystr)" where
  "cli options call =
     (let options' = parse_args options (param_order call);
          params = (opt_count call, opt_lines call, opt_words call, opt_chars call)
      in (options', parse_file (arg_file call) params options'))"

section \<open>The specification's notions\<close>

text \<open>
  The number a decimal numeral denotes, to compare the counts that \<open>get_wc_values\<close>
  returns as strings.
\<close>

definition nat_of_str :: "pystr \<Rightarrow> nat" where
  "nat_of_str s = foldl (\<lambda>acc d. 10 * acc + (d - 48)) 0 s"

text \<open>A text that the UTF-8 codec accepts, and a text of ASCII characters only.\<close>

definition encodable :: "pystr \<Rightarrow> bool" where
  "encodable text = list_all (\<lambda>c. \<not> is_surrogate c) text"

definition is_ascii :: "pystr \<Rightarrow> bool" where
  "is_ascii text = list_all (\<lambda>c. c < 0x80) text"

text \<open>The length of the UTF-8 encoding: the sum of the widths of the characters.\<close>

definition utf8_width :: "codepoint \<Rightarrow> nat" where
  "utf8_width c = (if c < 0x80 then 1 else if c < 0x800 then 2 else if c < 0x10000 then 3 else 4)"

definition utf8_length :: "pystr \<Rightarrow> nat" where
  "utf8_length text = sum_list (map utf8_width text)"

text \<open>The text of the example in the docstring of \<open>get_wc_values\<close>.\<close>

definition example_text :: pystr where
  "example_text = py ''Hello world'' @ [newline] @ py ''This is a test''"

text \<open>
  The number of maximal runs of non-whitespace characters: a run starts at each
  non-whitespace character that is the first of the text or follows a whitespace
  character. \<open>in_word\<close> says that the character before was not whitespace.
\<close>

fun count_runs :: "bool \<Rightarrow> pystr \<Rightarrow> nat" where
  "count_runs in_word [] = 0"
| "count_runs in_word (c # cs) =
     (if isspace c then count_runs False cs
      else (if in_word then 0 else 1) + count_runs True cs)"

definition word_runs :: "pystr \<Rightarrow> nat" where
  "word_runs text = count_runs False text"

text \<open>
  The fields of the output line as the formatter's policy lists them: lines, words and
  bytes when no flag is set; otherwise lines if requested, words if requested, then the
  bytes/chars field, which is the byte count when both are requested and the decision is
  the bytes flag, the char count when both are requested otherwise, and else the one
  that is requested.
\<close>

definition requested_fields ::
  "bool \<times> bool \<times> bool \<times> bool \<Rightarrow> pystr option \<Rightarrow> 'a \<times> 'a \<times> 'a \<times> 'a \<Rightarrow> 'a list" where
  "requested_fields flags decision counts =
     (case flags of (want_bytes, want_lines, want_words, want_chars) \<Rightarrow>
      case counts of (n_bytes, n_lines, n_words, n_chars) \<Rightarrow>
        if \<not> want_bytes \<and> \<not> want_lines \<and> \<not> want_words \<and> \<not> want_chars
        then [n_lines, n_words, n_bytes]
        else (if want_lines then [n_lines] else [])
           @ (if want_words then [n_words] else [])
           @ (if want_bytes \<and> want_chars
              then [if decision = Some (py ''count'') then n_bytes else n_chars]
              else if want_bytes then [n_bytes]
              else if want_chars then [n_chars]
              else []))"

section \<open>Properties of \<open>byte_or_char\<close>\<close>

lemma py_count_neq_chars: "py ''count'' \<noteq> py ''chars''"
  by (simp add: py_def)

lemma byte_or_char_loop_append:
  "byte_or_char_loop m (xs @ ys) = byte_or_char_loop (byte_or_char_loop m xs) ys"
  by (induction xs arbitrary: m) (simp_all add: Let_def)

lemma byte_or_char_loop_snoc:
  "byte_or_char_loop m (xs @ [p]) =
     (if p = py ''chars'' then Some (py ''chars'')
      else if p = py ''count'' then Some (py ''count'')
      else byte_or_char_loop m xs)"
  by (simp add: byte_or_char_loop_append Let_def)

lemma byte_or_char_loop_marker:
  "byte_or_char_loop m order =
     (case rev (filter (\<lambda>p. p = py ''count'' \<or> p = py ''chars'') order) of
        [] \<Rightarrow> m
      | p # _ \<Rightarrow> Some p)"
proof (induction order rule: rev_induct)
  case Nil
  show ?case by simp
next
  case (snoc p order)
  show ?case
    using snoc.IH by (simp add: byte_or_char_loop_snoc)
qed

text \<open>
  C2: \<open>byte_or_char\<close> scans the list from first to last and returns the last bytes-flag
  or chars-flag token seen (\<open>None\<close> when neither occurs); other tokens are ignored, and
  the rightmost occurrence wins: [count, chars] gives chars, [chars, count] gives count,
  [count] gives count and [] gives \<open>None\<close>.
\<close>

theorem byte_or_char_last_marker:
  "byte_or_char order = last_seen_marker order
   \<and> byte_or_char (order @ [py ''count'']) = Some (py ''count'')
   \<and> byte_or_char (order @ [py ''chars'']) = Some (py ''chars'')
   \<and> (p \<noteq> py ''count'' \<and> p \<noteq> py ''chars''
        \<longrightarrow> byte_or_char (order @ [p]) = byte_or_char order
          \<and> byte_or_char (p # order) = byte_or_char order)
   \<and> byte_or_char [py ''count'', py ''chars''] = Some (py ''chars'')
   \<and> byte_or_char [py ''chars'', py ''count''] = Some (py ''count'')
   \<and> byte_or_char [py ''count''] = Some (py ''count'')
   \<and> byte_or_char [] = None"
  unfolding byte_or_char_def last_seen_marker_def
  using py_count_neq_chars
  by (simp add: byte_or_char_loop_snoc byte_or_char_loop_marker [symmetric] Let_def)

theorem byte_or_char_last_marker_witness:
  "py ''lines'' \<noteq> py ''count'' \<and> py ''lines'' \<noteq> py ''chars''
   \<and> byte_or_char ([py ''count'', py ''file''] @ [py ''lines'']) = Some (py ''count'')
   \<and> byte_or_char (py ''lines'' # [py ''count'', py ''file'']) = Some (py ''count'')
   \<and> byte_or_char [py ''count'', py ''file''] = last_seen_marker [py ''count'', py ''file'']"
proof -
  have ne: "py ''lines'' \<noteq> py ''count'' \<and> py ''lines'' \<noteq> py ''chars''"
    by (simp add: py_def)
  have v: "byte_or_char [py ''count'', py ''file''] = Some (py ''count'')"
    by (simp add: byte_or_char_def py_def)
  show ?thesis
    using ne v byte_or_char_last_marker [of "[py ''count'', py ''file'']" "py ''lines''"]
    by simp
qed

section \<open>Numerals, the UTF-8 codec and \<open>split\<close>\<close>


lemma nat_of_str_snoc: "nat_of_str (s @ [d]) = 10 * nat_of_str s + (d - 48)"
  by (simp add: nat_of_str_def)

lemma nat_of_str_str_nat: "nat_of_str (str_nat n) = n"
proof (induction n rule: str_nat.induct)
  case (1 n)
  show ?case
  proof (cases "n < 10")
    case True
    then show ?thesis
      by (simp add: str_nat.simps [of n] nat_of_str_def digit_char_def)
  next
    case False
    then have "nat_of_str (str_nat n) = 10 * nat_of_str (str_nat (n div 10)) + n mod 10"
      by (simp add: str_nat.simps [of n] nat_of_str_snoc digit_char_def)
    with False 1 show ?thesis by simp
  qed
qed

lemma str_nat_inj: "str_nat m = str_nat n \<Longrightarrow> m = n"
  by (metis nat_of_str_str_nat)

lemma utf8_encode_char_surrogate: "is_surrogate c \<Longrightarrow> utf8_encode_char c = Inl UnicodeEncodeError"
  by (simp add: utf8_encode_char_def is_surrogate_def)

lemma utf8_encode_char_ok:
  "\<not> is_surrogate c \<Longrightarrow> \<exists>bs. utf8_encode_char c = Inr bs \<and> 1 \<le> length bs \<and> (length bs = 1 \<longleftrightarrow> c < 0x80)"
  by (simp add: utf8_encode_char_def)

lemma encode_utf8_encodable:
  "encodable t \<Longrightarrow> \<exists>bs. encode_utf8 t = Inr bs \<and> length t \<le> length bs \<and> (length bs = length t \<longleftrightarrow> is_ascii t)"
proof (induction t)
  case Nil
  show ?case by (simp add: is_ascii_def)
next
  case (Cons c cs)
  from Cons.prems have c: "\<not> is_surrogate c" and cs: "encodable cs"
    by (simp_all add: encodable_def)
  from utf8_encode_char_ok [OF c] obtain b where
    b: "utf8_encode_char c = Inr b" "1 \<le> length b" "length b = 1 \<longleftrightarrow> c < 0x80"
    by blast
  from Cons.IH [OF cs] obtain bs where
    bs: "encode_utf8 cs = Inr bs" "length cs \<le> length bs" "length bs = length cs \<longleftrightarrow> is_ascii cs"
    by blast
  have "encode_utf8 (c # cs) = Inr (b @ bs)"
    using b(1) bs(1) by simp
  moreover have "length (c # cs) \<le> length (b @ bs)"
    using b(2) bs(2) by simp
  moreover have "length (b @ bs) = length (c # cs) \<longleftrightarrow> is_ascii (c # cs)"
  proof -
    have "is_ascii (c # cs) \<longleftrightarrow> c < 0x80 \<and> is_ascii cs"
      by (simp add: is_ascii_def)
    with b(2,3) bs(2,3) show ?thesis
      by (simp; arith)
  qed
  ultimately show ?case by blast
qed

lemma encode_utf8_not_encodable:
  "\<not> encodable t \<Longrightarrow> encode_utf8 t = Inl UnicodeEncodeError"
proof (induction t)
  case Nil
  then show ?case by (simp add: encodable_def)
next
  case (Cons c cs)
  show ?case
  proof (cases "is_surrogate c")
    case True
    then show ?thesis by (simp add: utf8_encode_char_surrogate)
  next
    case False
    with Cons.prems have "\<not> encodable cs" by (simp add: encodable_def)
    then have "encode_utf8 cs = Inl UnicodeEncodeError" by (rule Cons.IH)
    moreover from utf8_encode_char_ok [OF False] obtain b where "utf8_encode_char c = Inr b"
      by blast
    ultimately show ?thesis by simp
  qed
qed

lemma str_split_Nil: "str_split [] = []"
  by (simp add: str_split.simps)


lemma count_runs_True_dropWhile:
  "count_runs True cs = count_runs False (dropWhile (\<lambda>x. \<not> isspace x) cs)"
proof (induction cs)
  case Nil
  show ?case by simp
next
  case (Cons c cs)
  show ?case
  proof (cases "isspace c")
    case True
    then show ?thesis by simp
  next
    case False
    then show ?thesis using Cons.IH by simp
  qed
qed

lemma count_runs_False_skip: "count_runs False s = count_runs False (dropWhile isspace s)"
  by (induction s) simp_all

lemma length_str_split: "length (str_split s) = count_runs False s"
proof (induction s rule: str_split.induct)
  case (1 s)
  show ?case
  proof (cases "dropWhile isspace s")
    case Nil
    have "count_runs False s = count_runs False (dropWhile isspace s)"
      by (rule count_runs_False_skip)
    also have "\<dots> = 0"
      unfolding Nil by simp
    finally have "count_runs False s = 0" .
    moreover have "str_split s = []"
      unfolding str_split.simps [of s] Nil by simp
    ultimately show ?thesis by simp
  next
    case (Cons c cs)
    have nsp: "\<not> isspace c"
      using Cons hd_dropWhile [of isspace s] by fastforce
    have "length (str_split s) = 1 + length (str_split (dropWhile (\<lambda>x. \<not> isspace x) cs))"
      using Cons by (simp add: str_split.simps [of s])
    also have "\<dots> = 1 + count_runs False (dropWhile (\<lambda>x. \<not> isspace x) cs)"
      using "1.IH" [OF Cons] by simp
    also have "\<dots> = 1 + count_runs True cs"
      by (simp add: count_runs_True_dropWhile)
    also have "\<dots> = count_runs False (c # cs)"
      using nsp by simp
    also have "\<dots> = count_runs False s"
      unfolding Cons [symmetric] by (rule count_runs_False_skip [symmetric])
    finally show ?thesis .
  qed
qed


lemma utf8_encode_char_width:
  "utf8_encode_char c = Inr bs \<Longrightarrow> length bs = utf8_width c"
  by (auto simp: utf8_encode_char_def utf8_width_def split: if_splits)

lemma encode_utf8_length: "encode_utf8 t = Inr bs \<Longrightarrow> length bs = utf8_length t"
proof (induction t arbitrary: bs)
  case Nil
  then show ?case by (simp add: utf8_length_def)
next
  case (Cons c cs)
  from Cons.prems obtain b rest where
    b: "utf8_encode_char c = Inr b" and rest: "encode_utf8 cs = Inr rest" and bs: "bs = b @ rest"
    by (auto split: sum.splits)
  have "length rest = utf8_length cs" using rest by (rule Cons.IH)
  moreover have "length b = utf8_width c" using b by (rule utf8_encode_char_width)
  ultimately show ?case using bs by (simp add: utf8_length_def)
qed

lemma encode_utf8_ascii: "is_ascii t \<Longrightarrow> encode_utf8 t = Inr t"
  by (induction t) (simp_all add: is_ascii_def utf8_encode_char_def)

lemma length_filter_newline: "length (filter (\<lambda>c. c = n) t) = count_list t n"
  by (induction t) simp_all

lemma str_split_none:
  assumes "dropWhile isspace s = []"
  shows "str_split s = []"
  unfolding str_split.simps [of s] assms by simp

lemma str_split_some:
  assumes "dropWhile isspace s = c # cs"
  shows "str_split s =
    (c # takeWhile (\<lambda>x. \<not> isspace x) cs) # str_split (dropWhile (\<lambda>x. \<not> isspace x) cs)"
  unfolding str_split.simps [of s] assms by simp

lemma str_split_tokens:
  "w \<in> set (str_split s) \<Longrightarrow> w \<noteq> [] \<and> (\<forall>c\<in>set w. \<not> isspace c)"
proof (induction s rule: str_split.induct)
  case (1 s)
  show ?case
  proof (cases "dropWhile isspace s")
    case Nil
    then have "str_split s = []"
      by (rule str_split_none)
    with "1.prems" show ?thesis by simp
  next
    case (Cons c cs)
    have nsp: "\<not> isspace c"
      using Cons hd_dropWhile [of isspace s] by fastforce
    have split: "str_split s =
        (c # takeWhile (\<lambda>x. \<not> isspace x) cs) # str_split (dropWhile (\<lambda>x. \<not> isspace x) cs)"
      using Cons by (rule str_split_some)
    from "1.prems" split consider
        "w = c # takeWhile (\<lambda>x. \<not> isspace x) cs"
      | "w \<in> set (str_split (dropWhile (\<lambda>x. \<not> isspace x) cs))"
      by auto
    then show ?thesis
    proof cases
      case 1
      then show ?thesis using nsp by (auto dest: set_takeWhileD)
    next
      case 2
      then show ?thesis by (rule "1.IH" [OF Cons])
    qed
  qed
qed

lemma concat_str_split: "concat (str_split s) = filter (\<lambda>x. \<not> isspace x) s"
proof (induction s rule: str_split.induct)
  case (1 s)
  have skip: "filter (\<lambda>x. \<not> isspace x) s = filter (\<lambda>x. \<not> isspace x) (dropWhile isspace s)"
    by (induction s) simp_all
  show ?case
  proof (cases "dropWhile isspace s")
    case Nil
    then have "str_split s = []"
      by (rule str_split_none)
    then show ?thesis using skip Nil by simp
  next
    case (Cons c cs)
    have nsp: "\<not> isspace c"
      using Cons hd_dropWhile [of isspace s] by fastforce
    have split: "str_split s =
        (c # takeWhile (\<lambda>x. \<not> isspace x) cs) # str_split (dropWhile (\<lambda>x. \<not> isspace x) cs)"
      using Cons by (rule str_split_some)
    have part: "filter (\<lambda>x. \<not> isspace x) cs =
        takeWhile (\<lambda>x. \<not> isspace x) cs @ filter (\<lambda>x. \<not> isspace x) (dropWhile (\<lambda>x. \<not> isspace x) cs)"
      by (induction cs) simp_all
    have "concat (str_split s) =
        c # takeWhile (\<lambda>x. \<not> isspace x) cs @ filter (\<lambda>x. \<not> isspace x) (dropWhile (\<lambda>x. \<not> isspace x) cs)"
      using split "1.IH" [OF Cons] by simp
    also have "\<dots> = filter (\<lambda>x. \<not> isspace x) (c # cs)"
      using nsp part by simp
    also have "\<dots> = filter (\<lambda>x. \<not> isspace x) s"
      using skip Cons by simp
    finally show ?thesis .
  qed
qed

lemma get_wc_values_encodable:
  "encodable t \<Longrightarrow>
   get_wc_values t =
     Inr (str_nat (utf8_length t), str_nat (count_list t newline), str_nat (word_runs t),
          str_nat (length t))"
proof -
  assume "encodable t"
  then obtain bs where bs: "encode_utf8 t = Inr bs"
    using encode_utf8_encodable by blast
  then have "length bs = utf8_length t" by (rule encode_utf8_length)
  with bs show ?thesis
    by (simp add: get_wc_values_def length_filter_newline length_str_split word_runs_def)
qed

lemma get_wc_values_not_encodable:
  "\<not> encodable t \<Longrightarrow> get_wc_values t = Inl UnicodeEncodeError"
  by (simp add: get_wc_values_def encode_utf8_not_encodable)

lemma utf8_length_ge: "length t \<le> utf8_length t"
  by (induction t) (simp_all add: utf8_length_def utf8_width_def)

lemma utf8_length_eq_iff: "utf8_length t = length t \<longleftrightarrow> is_ascii t"
proof (induction t)
  case Nil
  show ?case by (simp add: utf8_length_def is_ascii_def)
next
  case (Cons c cs)
  have ge: "length cs \<le> utf8_length cs" by (rule utf8_length_ge)
  have "utf8_length (c # cs) = utf8_width c + utf8_length cs"
    by (simp add: utf8_length_def)
  moreover have "is_ascii (c # cs) \<longleftrightarrow> c < 0x80 \<and> is_ascii cs"
    by (simp add: is_ascii_def)
  moreover have "1 \<le> utf8_width c" "utf8_width c = 1 \<longleftrightarrow> c < 0x80"
    by (simp_all add: utf8_width_def)
  ultimately show ?case using Cons.IH ge by (simp; arith)
qed

lemma example_text_counts:
  "encodable example_text" "utf8_length example_text = 26" "count_list example_text newline = 1" "word_runs example_text = 6" "length example_text = 26"
  by (simp_all add: example_text_def py_def newline_def encodable_def is_surrogate_def utf8_length_def utf8_width_def word_runs_def isspace_def)


section \<open>The counter\<close>

lemma str_nat_digits:
  "str_nat 0 = py ''0''" "str_nat 1 = py ''1''" "str_nat 2 = py ''2''" "str_nat 3 = py ''3''"
  "str_nat 6 = py ''6''" "str_nat 26 = py ''26''" "str_nat (Suc 0) = py ''1''"
  by (simp_all add: str_nat.simps digit_char_def py_def)

lemma str_nat_small: "n < 10 \<Longrightarrow> str_nat n = [48 + n]"
  by (simp add: str_nat.simps digit_char_def)

text \<open>
  C5 (amended): for every text without a surrogate code point, \<open>get_wc_values\<close>
  succeeds and returns the decimal numerals of the length of the UTF-8 encoding, of the
  number of newline characters, of the number of items of \<open>split\<close> and of the number
  of characters; on a text with a surrogate code point it raises
  \<open>UnicodeEncodeError\<close>. The number of items of \<open>split\<close> is the number of maximal
  runs of non-whitespace characters, every item is non-empty and free of whitespace, the
  empty text has 0 words and \<open>" a  b \tc\n"\<close> has 3, and on the empty text all four
  counts are 0.
\<close>

theorem get_wc_values_counts:
  "(encodable t \<longrightarrow>
      (\<exists>encoded. encode_utf8 t = Inr encoded
         \<and> get_wc_values t =
             Inr (str_nat (length encoded), str_nat (count_list t newline),
                  str_nat (length (str_split t)), str_nat (length t))))
   \<and> (\<not> encodable t \<longrightarrow> get_wc_values t = Inl UnicodeEncodeError)
   \<and> length (str_split t) = word_runs t
   \<and> (\<forall>w\<in>set (str_split t). w \<noteq> [] \<and> (\<forall>c\<in>set w. \<not> isspace c))
   \<and> length (str_split []) = 0
   \<and> length (str_split (py '' a  b '' @ tab @ py ''c'' @ [newline])) = 3
   \<and> get_wc_values [] = Inr (py ''0'', py ''0'', py ''0'', py ''0'')"
proof -
  have enc: "encodable t \<longrightarrow>
      (\<exists>encoded. encode_utf8 t = Inr encoded
         \<and> get_wc_values t =
             Inr (str_nat (length encoded), str_nat (count_list t newline),
                  str_nat (length (str_split t)), str_nat (length t)))"
  proof
    assume e: "encodable t"
    then obtain bs where bs: "encode_utf8 t = Inr bs"
      using encode_utf8_encodable by blast
    then have "length bs = utf8_length t" by (rule encode_utf8_length)
    with bs get_wc_values_encodable [OF e] show "\<exists>encoded. encode_utf8 t = Inr encoded
         \<and> get_wc_values t =
             Inr (str_nat (length encoded), str_nat (count_list t newline),
                  str_nat (length (str_split t)), str_nat (length t))"
      by (simp add: length_str_split word_runs_def)
  qed
  have raise: "\<not> encodable t \<longrightarrow> get_wc_values t = Inl UnicodeEncodeError"
    by (simp add: get_wc_values_not_encodable)
  have runs: "length (str_split t) = word_runs t"
    by (simp add: length_str_split word_runs_def)
  have tokens: "\<forall>w\<in>set (str_split t). w \<noteq> [] \<and> (\<forall>c\<in>set w. \<not> isspace c)"
    using str_split_tokens by blast
  have w0: "length (str_split []) = 0"
    by (simp add: length_str_split)
  have w3: "length (str_split (py '' a  b '' @ tab @ py ''c'' @ [newline])) = 3"
    by (simp add: length_str_split py_def tab_def newline_def isspace_def)
  have empty: "get_wc_values [] = Inr (py ''0'', py ''0'', py ''0'', py ''0'')"
    by (simp add: get_wc_values_def str_split_Nil str_nat_digits)
  from enc raise runs tokens w0 w3 empty show ?thesis by blast
qed

text \<open>
  The text \<open>"a\nb"\<close> has 3 bytes, 1 newline (the unterminated last line adds nothing),
  2 words and 3 characters; a text holding the surrogate U+DC80 raises.
\<close>

theorem get_wc_values_counts_witness:
  "encodable (py ''a'' @ [newline] @ py ''b'')
   \<and> get_wc_values (py ''a'' @ [newline] @ py ''b'') = Inr (py ''3'', py ''1'', py ''2'', py ''3'')
   \<and> \<not> encodable [0xDC80]
   \<and> get_wc_values [0xDC80] = Inl UnicodeEncodeError
   \<and> set (str_split (py ''a'' @ [newline] @ py ''b'')) \<noteq> {}"
proof -
  let ?t = "py ''a'' @ [newline] @ py ''b''"
  have e: "encodable ?t" by (simp add: py_def newline_def encodable_def is_surrogate_def)
  have a: "encode_utf8 ?t = Inr [97, 10, 98]"
    by (simp add: py_def newline_def utf8_encode_char_def)
  have c: "count_list ?t newline = 1" by (simp add: py_def newline_def)
  have w: "word_runs ?t = 2" by (simp add: py_def newline_def word_runs_def isspace_def)
  have n: "\<not> encodable [0xDC80]" by (simp add: encodable_def is_surrogate_def)
  have "get_wc_values ?t = Inr (py ''3'', py ''1'', py ''2'', py ''3'')"
    using get_wc_values_counts [of ?t] e a c w by (simp add: str_nat_small py_def newline_def)
  moreover have "get_wc_values [0xDC80] = Inl UnicodeEncodeError"
    using get_wc_values_counts [of "[0xDC80]"] n by blast
  moreover have "set (str_split ?t) \<noteq> {}"
    using get_wc_values_counts [of ?t] w by auto
  ultimately show ?thesis using e n by blast
qed

text \<open>
  C5 as stated fails: the one-character string \<open>"\ud800"\<close> is a string, and
  \<open>get_wc_values\<close> does not succeed on it.
\<close>

theorem get_wc_values_surrogate_counterexample:
  "get_wc_values [0xD800] = Inl UnicodeEncodeError"
  by (simp add: get_wc_values_def utf8_encode_char_def is_surrogate_def)

text \<open>
  C7: whenever \<open>get_wc_values\<close> returns its counts for a text, the byte count is at
  least the char count, and the two are equal exactly when every character of the text
  is an ASCII character.
\<close>

theorem byte_count_ge_char_count:
  "get_wc_values t = Inr (byte_count, line_count, word_count, char_count) \<Longrightarrow>
     nat_of_str char_count \<le> nat_of_str byte_count
     \<and> (nat_of_str byte_count = nat_of_str char_count \<longleftrightarrow> is_ascii t)
     \<and> (byte_count = char_count \<longleftrightarrow> is_ascii t)"
proof -
  assume r: "get_wc_values t = Inr (byte_count, line_count, word_count, char_count)"
  have e: "encodable t"
  proof (rule ccontr)
    assume "\<not> encodable t"
    then have "get_wc_values t = Inl UnicodeEncodeError" by (rule get_wc_values_not_encodable)
    with r show False by simp
  qed
  from get_wc_values_encodable [OF e] r
  have b: "byte_count = str_nat (utf8_length t)" and c: "char_count = str_nat (length t)"
    by simp_all
  have "nat_of_str char_count \<le> nat_of_str byte_count"
    by (simp add: b c nat_of_str_str_nat utf8_length_ge)
  moreover have "nat_of_str byte_count = nat_of_str char_count \<longleftrightarrow> is_ascii t"
    by (simp add: b c nat_of_str_str_nat utf8_length_eq_iff)
  moreover have "byte_count = char_count \<longleftrightarrow> is_ascii t"
    using str_nat_inj [of "utf8_length t" "length t"] utf8_length_eq_iff [of t]
    by (auto simp: b c)
  ultimately show ?thesis by blast
qed

text \<open>The text of U+00E9 followed by \<open>a\<close> has 3 bytes and 2 characters, and is not ASCII.\<close>

theorem byte_count_ge_char_count_witness:
  "get_wc_values [0xE9, 0x61] = Inr (py ''3'', py ''0'', py ''1'', py ''2'')
   \<and> nat_of_str (py ''2'') \<le> nat_of_str (py ''3'')
   \<and> nat_of_str (py ''3'') \<noteq> nat_of_str (py ''2'')
   \<and> \<not> is_ascii [0xE9, 0x61]"
proof -
  have e: "encodable [0xE9, 0x61]" by (simp add: encodable_def is_surrogate_def)
  have v: "get_wc_values [0xE9, 0x61] = Inr (py ''3'', py ''0'', py ''1'', py ''2'')"
    using get_wc_values_encodable [OF e]
    by (simp add: utf8_length_def utf8_width_def newline_def word_runs_def isspace_def
        str_nat_small py_def)
  have n: "\<not> is_ascii [0xE9, 0x61]" by (simp add: is_ascii_def)
  show ?thesis
    using byte_count_ge_char_count [OF v] v n by simp
qed


section \<open>The formatter\<close>

lemma create_output_strs:
  "create_output flags (PyStr b, PyStr l, PyStr w, PyStr c) last_param =
     Inr (join_strs tab (requested_fields flags last_param (b, l, w, c)))"
proof -
  obtain fc fl fw fm where flags: "flags = (fc, fl, fw, fm)"
    by (cases flags) auto
  show ?thesis
    unfolding flags
    by (cases fc; cases fl; cases fw; cases fm)
       (simp_all add: create_output_def requested_fields_def str_join_def)
qed

lemma map_requested_fields:
  "map f (requested_fields flags decision (b, l, w, c)) =
     requested_fields flags decision (f b, f l, f w, f c)"
proof -
  obtain fc fl fw fm where flags: "flags = (fc, fl, fw, fm)"
    by (cases flags) auto
  show ?thesis
    unfolding flags by (simp add: requested_fields_def)
qed

text \<open>
  C6: with no flag requested, \<open>create_output\<close> returns the line count, the word count
  and the byte count in this order, separated by tabs, whatever the counts and whatever
  the value of \<open>last_param\<close>.
\<close>

theorem create_output_no_flags:
  "create_output (False, False, False, False) (byte_count, line_count, word_count, char_count)
     last_param =
   Inr (format_value line_count @ tab @ format_value word_count @ tab
        @ format_value byte_count)"
  by (simp add: create_output_def)

text \<open>
  C10: when the bytes flag and the chars flag are not both requested, the result of
  \<open>create_output\<close> is the same for every two values of \<open>last_param\<close>.
\<close>

theorem create_output_last_param_unused:
  "\<not> (count \<and> chars) \<Longrightarrow>
     create_output (count, lines, words, chars) vals last_param =
     create_output (count, lines, words, chars) vals last_param'"
  by (auto simp: create_output_def split: prod.splits)

theorem create_output_last_param_unused_witness:
  "\<not> (True \<and> False)
   \<and> create_output (True, True, False, False)
        (PyStr (py ''1024''), PyStr (py ''50''), PyStr (py ''200''), PyStr (py ''980''))
        None = Inr (py ''50'' @ tab @ py ''1024'')
   \<and> create_output (True, True, False, False)
        (PyStr (py ''1024''), PyStr (py ''50''), PyStr (py ''200''), PyStr (py ''980''))
        (Some (py ''chars'')) = Inr (py ''50'' @ tab @ py ''1024'')"
proof -
  have h: "\<not> (True \<and> False)" by simp
  have v: "create_output (True, True, False, False)
        (PyStr (py ''1024''), PyStr (py ''50''), PyStr (py ''200''), PyStr (py ''980''))
        None = Inr (py ''50'' @ tab @ py ''1024'')"
    by (simp add: create_output_def str_join_def)
  show ?thesis
    using v create_output_last_param_unused [OF h, of True False
        "(PyStr (py ''1024''), PyStr (py ''50''), PyStr (py ''200''), PyStr (py ''980''))"
        None "Some (py ''chars'')"]
    by simp
qed

text \<open>
  C3, at the examples of the docstring of \<open>create_output\<close>: with integer counts, as the
  annotation and the docstring have them, and a flag requested, \<open>"\t".join\<close> raises
  \<open>TypeError\<close> where the docstring promises \<open>'50\t1024'\<close> and \<open>'200\t980'\<close>.
\<close>

theorem create_output_docstring_examples:
  "create_output (True, True, False, False) (PyInt 1024, PyInt 50, PyInt 200, PyInt 980)
     (Some (py ''count'')) = Inl TypeError
   \<and> create_output (True, False, True, True) (PyInt 1024, PyInt 50, PyInt 200, PyInt 980)
     (Some (py ''chars'')) = Inl TypeError"
  by (simp add: create_output_def str_join_def)

section \<open>The pipeline\<close>

lemma parse_file_encodable:
  "encodable (file_read file) \<Longrightarrow>
   parse_file file flags ordered_params =
     Inr (join_strs tab
            (map str_nat
               (requested_fields flags (byte_or_char ordered_params)
                  (utf8_length (file_read file), count_list (file_read file) newline,
                   word_runs (file_read file), length (file_read file))))
          @ py '' '' @ file_name file)"
  by (simp add: parse_file_def get_wc_values_encodable create_output_strs map_requested_fields)

lemma parse_file_not_encodable:
  "\<not> encodable (file_read file) \<Longrightarrow>
   parse_file file flags ordered_params = Inl UnicodeEncodeError"
  by (simp add: parse_file_def get_wc_values_not_encodable)

text \<open>
  C9: the output that \<open>parse_file\<close> produces is the requested counts as decimal numerals
  in the formatter's order, separated by tabs, then one space and the name of the file.
  It is produced whenever the text can be encoded; otherwise \<open>parse_file\<close> raises the
  codec's exception.
\<close>

theorem parse_file_output:
  "(parse_file file flags ordered_params = Inr out \<longrightarrow>
      out = join_strs tab
              (map str_nat
                 (requested_fields flags (byte_or_char ordered_params)
                    (utf8_length (file_read file), count_list (file_read file) newline,
                     word_runs (file_read file), length (file_read file))))
            @ py '' '' @ file_name file)
   \<and> (encodable (file_read file) \<longrightarrow> (\<exists>line. parse_file file flags ordered_params = Inr line))
   \<and> (\<not> encodable (file_read file) \<longrightarrow>
        parse_file file flags ordered_params = Inl UnicodeEncodeError)"
proof (cases "encodable (file_read file)")
  case True
  then show ?thesis by (simp add: parse_file_encodable)
next
  case False
  then show ?thesis by (simp add: parse_file_not_encodable)
qed

theorem parse_file_output_witness:
  "encodable (file_read \<lparr>file_read = py ''a b'', file_name = py ''f''\<rparr>)
   \<and> parse_file \<lparr>file_read = py ''a b'', file_name = py ''f''\<rparr> (True, False, True, True)
        [py ''chars'', py ''words'', py ''count'', py ''file'']
      = Inr (py ''2'' @ tab @ py ''3'' @ py '' '' @ py ''f'')
   \<and> \<not> encodable (file_read \<lparr>file_read = [0xDC80], file_name = py ''f''\<rparr>)
   \<and> parse_file \<lparr>file_read = [0xDC80], file_name = py ''f''\<rparr> (True, False, True, True)
        [py ''chars'', py ''words'', py ''count'', py ''file''] = Inl UnicodeEncodeError"
proof -
  let ?f = "\<lparr>file_read = py ''a b'', file_name = py ''f''\<rparr>"
  let ?g = "\<lparr>file_read = [0xDC80], file_name = py ''f''\<rparr>"
  let ?order = "[py ''chars'', py ''words'', py ''count'', py ''file'']"
  have e: "encodable (file_read ?f)"
    by (simp add: py_def encodable_def is_surrogate_def)
  have n: "\<not> encodable (file_read ?g)"
    by (simp add: encodable_def is_surrogate_def)
  have d: "byte_or_char ?order = Some (py ''count'')"
    by (simp add: byte_or_char_def py_def)
  have c: "utf8_length (py ''a b'') = 3" "word_runs (py ''a b'') = 2"
    by (simp_all add: py_def utf8_length_def utf8_width_def word_runs_def isspace_def)
  from parse_file_output [of ?f "(True, False, True, True)" ?order] e
  obtain line where line: "parse_file ?f (True, False, True, True) ?order = Inr line"
    by blast
  with parse_file_output [of ?f "(True, False, True, True)" ?order line]
  have "line = py ''2'' @ tab @ py ''3'' @ py '' '' @ py ''f''"
    by (simp add: d c requested_fields_def str_nat_digits)
  with line e n parse_file_output [of ?g "(True, False, True, True)" ?order]
  show ?thesis by simp
qed

text \<open>
  C4 (amended): for the text \<open>"Hello world\nThis is a test"\<close> and no flag requested,
  \<open>parse_file\<close> produces \<open>"1\t6\t26"\<close> (1 newline, 6 words, 26 bytes), one space and
  the name of the file, whatever the flag order.
\<close>

theorem parse_file_example:
  "parse_file \<lparr>file_read = example_text, file_name = name\<rparr> (False, False, False, False)
     ordered_params
   = Inr (py ''1'' @ tab @ py ''6'' @ tab @ py ''26'' @ py '' '' @ name)"
proof -
  have "encodable (file_read \<lparr>file_read = example_text, file_name = name\<rparr>)"
    by (simp add: example_text_counts)
  then show ?thesis
    by (simp add: parse_file_encodable example_text_counts requested_fields_def
        str_nat_digits)
qed

text \<open>
  C4 as stated fails: the output for the file named \<open>f.txt\<close> is \<open>"1\t6\t26 f.txt"\<close>,
  not \<open>"1\t6\t27 f.txt"\<close>.
\<close>

theorem parse_file_example_counterexample:
  "parse_file \<lparr>file_read = example_text, file_name = py ''f.txt''\<rparr>
     (False, False, False, False) []
   \<noteq> Inr (py ''1'' @ tab @ py ''6'' @ tab @ py ''27'' @ py '' '' @ py ''f.txt'')"
proof -
  have "encodable (file_read \<lparr>file_read = example_text, file_name = py ''f.txt''\<rparr>)"
    by (simp add: example_text_counts)
  then show ?thesis
    by (simp add: parse_file_encodable example_text_counts requested_fields_def
        str_nat_digits py_def tab_def)
qed


section \<open>Successive invocations\<close>

lemma parse_args_append: "parse_args options names = options @ names"
  unfolding parse_args_def by (induction names arbitrary: options) simp_all

lemma fst_cli: "fst (cli options call) = options @ param_order call"
  by (simp add: cli_def Let_def parse_args_append)

lemma snd_cli:
  "snd (cli options call) =
     parse_file (arg_file call) (opt_count call, opt_lines call, opt_words call, opt_chars call)
       (options @ param_order call)"
  by (simp add: cli_def Let_def parse_args_append)

lemma parse_file_same_decision:
  "byte_or_char order = byte_or_char order' \<Longrightarrow>
     parse_file file flags order = parse_file file flags order'"
  by (simp add: parse_file_def Let_def)

lemma byte_or_char_loop_start:
  "byte_or_char_loop m order =
     (case byte_or_char_loop None order of None \<Rightarrow> m | Some p \<Rightarrow> Some p)"
  by (simp add: byte_or_char_loop_marker split: list.splits)

lemma byte_or_char_append:
  "byte_or_char (before @ order) =
     (case byte_or_char order of None \<Rightarrow> byte_or_char before | Some p \<Rightarrow> Some p)"
  unfolding byte_or_char_def byte_or_char_loop_append
  by (rule byte_or_char_loop_start)

lemma byte_or_char_None: "byte_or_char order = None \<longleftrightarrow>
    py ''count'' \<notin> set order \<and> py ''chars'' \<notin> set order"
proof -
  have "byte_or_char order = None \<longleftrightarrow>
      filter (\<lambda>p. p = py ''count'' \<or> p = py ''chars'') order = []"
    by (simp add: byte_or_char_def byte_or_char_loop_marker split: list.splits)
  also have "\<dots> \<longleftrightarrow> py ''count'' \<notin> set order \<and> py ''chars'' \<notin> set order"
    by (auto simp: filter_empty_conv)
  finally show ?thesis .
qed

lemma byte_or_char_repeat:
  "byte_or_char (before @ order @ order) = byte_or_char (before @ order)"
  by (simp add: byte_or_char_append [of before "order @ order"]
      byte_or_char_append [of order order] byte_or_char_append [of before order]
      split: option.splits)

lemma create_output_ignores_last_param:
  "\<not> (count \<and> chars) \<Longrightarrow>
     create_output (count, lines, words, chars) vals last_param =
     create_output (count, lines, words, chars) vals last_param'"
  by (cases count; cases chars) (simp_all add: create_output_def Let_def split: prod.splits)

text \<open>
  C1, at two invocations in one process, the first with \<open>-c\<close> and the second with
  \<open>-m\<close>: the flag order that the second invocation hands to \<open>parse_file\<close> starts with
  the entries of the first.
\<close>

theorem cli_second_invocation_flag_order:
  "fst (cli (fst (cli []
          \<lparr>param_order = [py ''count'', py ''file''], arg_file = f,
           opt_count = True, opt_lines = False, opt_words = False, opt_chars = False\<rparr>))
        \<lparr>param_order = [py ''chars'', py ''file''], arg_file = g,
         opt_count = False, opt_lines = False, opt_words = False, opt_chars = True\<rparr>)
   = [py ''count'', py ''file'', py ''chars'', py ''file'']"
  by (simp add: fst_cli)

text \<open>
  C8: running \<open>cli\<close> a second time on the same invocation prints the same line as the
  first run, from whatever list \<open>_options\<close> the first run started; and the printed line
  does not depend on that list at all when a flag order that lacks both the bytes flag
  and the chars flag does not come with both flags set.
\<close>

theorem cli_rerun_same_output:
  "snd (cli (fst (cli options call)) call) = snd (cli options call)
   \<and> ((opt_count call \<and> opt_chars call \<longrightarrow>
         py ''count'' \<in> set (param_order call) \<or> py ''chars'' \<in> set (param_order call))
        \<longrightarrow> snd (cli options call) = snd (cli [] call))"
proof
  show "snd (cli (fst (cli options call)) call) = snd (cli options call)"
    by (simp add: snd_cli fst_cli parse_file_same_decision [OF byte_or_char_repeat])
next
  show "(opt_count call \<and> opt_chars call \<longrightarrow>
         py ''count'' \<in> set (param_order call) \<or> py ''chars'' \<in> set (param_order call))
        \<longrightarrow> snd (cli options call) = snd (cli [] call)"
  proof
    assume h: "opt_count call \<and> opt_chars call \<longrightarrow>
         py ''count'' \<in> set (param_order call) \<or> py ''chars'' \<in> set (param_order call)"
    let ?flags = "(opt_count call, opt_lines call, opt_words call, opt_chars call)"
    show "snd (cli options call) = snd (cli [] call)"
    proof (cases "opt_count call \<and> opt_chars call")
      case True
      with h have "byte_or_char (param_order call) \<noteq> None"
        by (simp add: byte_or_char_None)
      then have "byte_or_char (options @ param_order call) = byte_or_char (param_order call)"
        by (auto simp: byte_or_char_append [of options])
      then have "byte_or_char (options @ param_order call) = byte_or_char ([] @ param_order call)"
        by simp
      then show ?thesis
        unfolding snd_cli by (rule parse_file_same_decision)
    next
      case False
      have eq: "create_output ?flags vals (byte_or_char (options @ param_order call))
          = create_output ?flags vals (byte_or_char (param_order call))" for vals
        using False by (rule create_output_ignores_last_param)
      show ?thesis
        unfolding snd_cli parse_file_def Let_def
        by (simp add: eq split: sum.splits prod.splits)
    qed
  qed
qed

theorem cli_rerun_same_output_witness:
  "(opt_count \<lparr>param_order = [py ''chars'', py ''count'', py ''file''],
       arg_file = \<lparr>file_read = [0xE9], file_name = py ''f''\<rparr>,
       opt_count = True, opt_lines = False, opt_words = False, opt_chars = True\<rparr>)
   \<and> py ''count'' \<in> set [py ''chars'', py ''count'', py ''file'']
   \<and> snd (cli [py ''count'', py ''chars'', py ''file'']
        \<lparr>param_order = [py ''chars'', py ''count'', py ''file''],
         arg_file = \<lparr>file_read = [0xE9], file_name = py ''f''\<rparr>,
         opt_count = True, opt_lines = False, opt_words = False, opt_chars = True\<rparr>)
     = Inr (py ''2'' @ py '' '' @ py ''f'')"
proof -
  let ?call = "\<lparr>param_order = [py ''chars'', py ''count'', py ''file''],
         arg_file = \<lparr>file_read = [0xE9], file_name = py ''f''\<rparr>,
         opt_count = True, opt_lines = False, opt_words = False, opt_chars = True\<rparr>"
  have e: "encodable [0xE9]" by (simp add: encodable_def is_surrogate_def)
  have d: "byte_or_char [py ''chars'', py ''count'', py ''file''] = Some (py ''count'')"
    by (simp add: byte_or_char_def py_def)
  have fresh: "snd (cli [] ?call) = Inr (py ''2'' @ py '' '' @ py ''f'')"
    using e
    by (simp add: snd_cli parse_file_encodable d requested_fields_def
        utf8_length_def utf8_width_def str_nat_digits)
  show ?thesis
    using cli_rerun_same_output [of "[py ''count'', py ''chars'', py ''file'']" ?call] fresh
    by simp
qed

end
